theory Spec2Isabelle
  imports Complex_Main "HOL-Library.Sublist"
begin

section \<open>Sleep-window estimation (output.go, \<open>estimateSleepSchedule\<close>)\<close>

text \<open>
  The estimator receives the flattened commit timestamps of one subject. Go's \<open>int\<close> is
  64 bits wide; every integer below is a slice length, a bucket count bounded by a slice
  length, or an hour of the day, so no operation can wrap and the values are modelled
  as unbounded numbers. Quantities that the code never makes negative (bucket counts, run
  lengths, the threshold) are natural numbers; the run starts are integers because
  \<open>currentStart\<close> is initialised to \<open>-1\<close>.
\<close>

datatype panic = IndexOutOfRange | TypeAssertion

record CommitTimestamp =
  Timestamp :: int
  TimeOfDay :: int

text \<open>Go's integer division truncates toward zero; HOL's \<open>div\<close> rounds down.\<close>

definition goDiv :: "int \<Rightarrow> int \<Rightarrow> int" where
  "goDiv a b = sgn a * sgn b * (\<bar>a\<bar> div \<bar>b\<bar>)"

text \<open>Go's conversion \<open>int(f)\<close> of a floating-point value drops the fraction.\<close>

definition goTrunc :: "rat \<Rightarrow> int" where
  "goTrunc q = (if q < 0 then \<lceil>q\<rceil> else \<lfloor>q\<rfloor>)"

text \<open>
  Lines 21--25: \<open>hourCounts := make([]int, 24)\<close>, then one increment per commit at index
  \<open>c.TimeOfDay / 3600\<close>. An index outside the slice panics.
\<close>

fun countHours :: "CommitTimestamp list \<Rightarrow> nat list \<Rightarrow> panic + nat list" where
  "countHours [] hourCounts = Inr hourCounts"
| "countHours (c # cs) hourCounts =
     (let hour = goDiv (TimeOfDay c) 3600
      in if 0 \<le> hour \<and> hour < int (length hourCounts)
         then countHours cs (hourCounts[nat hour := Suc (hourCounts ! nat hour)])
         else Inl IndexOutOfRange)"

text \<open>
  Lines 29--34. The two \<open>float64\<close> operations are taken as exact rational arithmetic.
  For the length of a slice that fits in memory this gives the value the machine computes:
  the quotient by 24 and the product with 0.05 carry a relative error near \<open>2^-53\<close>, and
  the exact value \<open>total / 480\<close> is either at least \<open>1/480\<close> away from the next integer or
  an integer itself, to which the computed product then rounds.
\<close>

definition lowActivityThreshold :: "nat \<Rightarrow> nat" where
  "lowActivityThreshold totalCommits =
     (let avgPerHour = (of_nat totalCommits :: rat) / 24;
          threshold = goTrunc (avgPerHour * (5 / 100))
      in if threshold < 1 then 1 else nat threshold)"

text \<open>Lines 36--53: the scan state and one iteration of the 48-step loop.\<close>

record ScanState =
  longestStart :: int
  longestLen :: nat
  currentStart :: int
  currentLen :: nat

definition scanInit :: ScanState where
  "scanInit = \<lparr>longestStart = 0, longestLen = 0, currentStart = -1, currentLen = 0\<rparr>"

definition scanStep :: "nat list \<Rightarrow> nat \<Rightarrow> ScanState \<Rightarrow> nat \<Rightarrow> ScanState" where
  "scanStep hourCounts threshold st i =
     (let hour = i mod 24
      in if hourCounts ! hour \<le> threshold
         then (let st1 = (if currentLen st = 0 then st\<lparr>currentStart := int hour\<rparr> else st);
                   st2 = st1\<lparr>currentLen := Suc (currentLen st1)\<rparr>
               in if currentLen st2 > longestLen st2
                  then st2\<lparr>longestLen := currentLen st2, longestStart := currentStart st2\<rparr>
                  else st2)
         else st\<lparr>currentLen := 0\<rparr>)"

definition scanUpto :: "nat list \<Rightarrow> nat \<Rightarrow> nat \<Rightarrow> ScanState" where
  "scanUpto hourCounts threshold n = foldl (scanStep hourCounts threshold) scanInit [0..<n]"

definition longestLowRun :: "nat list \<Rightarrow> nat \<Rightarrow> ScanState" where
  "longestLowRun hourCounts threshold = scanUpto hourCounts threshold 48"

text \<open>
  The vocabulary of the scan: scan index \<open>i\<close> is a low-activity step when the bucket of
  hour \<open>i mod 24\<close> is at or below the threshold, and \<open>lowRun n j l\<close> says that the \<open>l\<close>
  scan steps from index \<open>j\<close> on lie within the first \<open>n\<close> steps and are all low.
\<close>

definition low :: "nat list \<Rightarrow> nat \<Rightarrow> nat \<Rightarrow> bool" where
  "low hourCounts threshold i = (hourCounts ! (i mod 24) \<le> threshold)"

definition lowRun :: "nat list \<Rightarrow> nat \<Rightarrow> nat \<Rightarrow> nat \<Rightarrow> nat \<Rightarrow> bool" where
  "lowRun hourCounts threshold n j l =
     (j + l \<le> n \<and> list_all (low hourCounts threshold) [j..<j + l])"

text \<open>
  What the function prints: nothing to analyse, an estimated window (start hour, end hour,
  duration, number of commits, threshold), or the message that no window was found. The
  subject's name only labels the printed text and is left out.
\<close>

datatype SleepReport =
    NoCommits
  | SleepWindow int int nat nat nat
  | NoClearWindow

definition estimateSleepSchedule :: "CommitTimestamp list \<Rightarrow> panic + SleepReport" where
  "estimateSleepSchedule commits =
     (if length commits = 0 then Inr NoCommits
      else case countHours commits (replicate 24 0) of
             Inl e \<Rightarrow> Inl e
           | Inr hourCounts \<Rightarrow>
               (let totalCommits = length commits;
                    threshold = lowActivityThreshold totalCommits;
                    st = longestLowRun hourCounts threshold
                in if longestLen st \<ge> 4
                   then Inr (SleepWindow (longestStart st)
                               ((longestStart st + int (longestLen st)) mod 24)
                               (longestLen st) totalCommits threshold)
                   else Inr NoClearWindow))"


section \<open>Strings (the functions of Go's \<open>strings\<close> and \<open>fmt\<close> packages that the code calls)\<close>

text \<open>A Go string is a byte sequence, as \<open>string\<close> is here.\<close>

text \<open>\<open>strings.HasPrefix(s, prefix)\<close>, \<open>strings.HasSuffix(s, suffix)\<close> and \<open>strings.Contains(s, substr)\<close>.\<close>

fun hasPrefix :: "string \<Rightarrow> string \<Rightarrow> bool" where
  "hasPrefix s [] = True"
| "hasPrefix [] (p # ps) = False"
| "hasPrefix (c # s) (p # ps) = (c = p \<and> hasPrefix s ps)"

definition hasSuffix :: "string \<Rightarrow> string \<Rightarrow> bool" where
  "hasSuffix s suf = hasPrefix (rev s) (rev suf)"

fun contains :: "string \<Rightarrow> string \<Rightarrow> bool" where
  "contains [] substr = (substr = [])"
| "contains (c # s) substr = (hasPrefix (c # s) substr \<or> contains s substr)"

text \<open>\<open>strings.Split(s, sep)\<close> for a one-byte separator: always at least one part.\<close>

fun splitOn :: "char \<Rightarrow> string \<Rightarrow> string list" where
  "splitOn sep [] = [[]]"
| "splitOn sep (c # s) =
     (if c = sep then [] # splitOn sep s
      else (case splitOn sep s of [] \<Rightarrow> [[c]] | p # ps \<Rightarrow> (c # p) # ps))"

text \<open>\<open>strings.Trim(s, cutset)\<close> for a one-byte cutset.\<close>

definition trim :: "string \<Rightarrow> char \<Rightarrow> string" where
  "trim s cutset = rev (dropWhile (\<lambda>c. c = cutset) (rev (dropWhile (\<lambda>c. c = cutset) s)))"

text \<open>\<open>fmt.Sprintf("%d", n)\<close> for a non-negative \<open>n\<close>, and zero padding to a width (\<open>%0*d\<close>).\<close>

fun sprintd :: "nat \<Rightarrow> string" where
  "sprintd n = (if n < 10 then [char_of (48 + n)] else sprintd (n div 10) @ [char_of (48 + n mod 10)])"

declare sprintd.simps [simp del]

definition padZero :: "nat \<Rightarrow> nat \<Rightarrow> string" where
  "padZero width n = replicate (width - length (sprintd n)) (CHR ''0'') @ sprintd n"

section \<open>Data model (main.go)\<close>

text \<open>
  Of a go-git commit object the program reads the hash, the author's name and e-mail, the
  hour of day of the author time (\<open>Author.When.Hour()\<close>) and the committer time, which is
  only ever compared with the cutoff; instants are integers on one time line.
  A cloned repository handle is represented by the clone URL it came from. The fields
  \<open>url\<close>, \<open>host\<close>, \<open>user\<close> and \<open>repos\<close> of \<open>Source\<close> carry the prefix \<open>src\<close>, so that
  the local variables of the same names keep theirs.
\<close>

record Commit =
  Hash :: string
  AuthorName :: string
  AuthorEmail :: string
  AuthorHour :: nat
  CommitterWhen :: int

record Source =
  srcURL :: string
  srcHost :: string
  srcUser :: string
  srcRepos :: "string list"

record Subject =
  Name :: string
  Sources :: "Source list"
  Commits :: "string \<rightharpoonup> Commit"

record Flags =
  User :: string
  Since :: int
  Write :: bool
  StdOut :: bool
  PlotScatter :: bool
  PlotHisto :: bool

section \<open>The outside world\<close>

text \<open>
  Library and network behaviour is a parameter of the model: the Unicode branch of
  \<open>strings.ToLower\<close>, \<open>url.Parse\<close> (giving
  \<open>Hostname()\<close> and \<open>Path\<close>), the probing client of \<open>detectAPI\<close> (status code, or no
  response), the API client of the fetchers (status code and body, the body unreadable
  when \<open>io.ReadAll\<close> fails; a request that cannot be built or sent gives no response),
  \<open>json.Unmarshal\<close> into each fetcher's target type, and the metadata-only clone with its
  commit log. Every network access the code makes is recorded as an event.
\<close>

datatype Any = AnyNil | AnyString string | AnyOther

record GiteaRepo =
  CloneURL :: string
  SSHURL :: string
  FullName :: string

datatype GitResult = CloneError | HeadError | LogError | IterError | CommitLog "Commit list"

record World =
  unicodeToLower :: "string \<Rightarrow> string"
  urlParse :: "string \<Rightarrow> (string \<times> string) option"
  probeGet :: "string \<Rightarrow> nat option"
  apiGet :: "string \<Rightarrow> (nat \<times> string option) option"
  unmarshalGitHub :: "string \<Rightarrow> string list option"
  unmarshalGitLab :: "string \<Rightarrow> (string \<rightharpoonup> Any) list option"
  unmarshalGitea :: "string \<Rightarrow> GiteaRepo list option"
  gitClone :: "string \<Rightarrow> GitResult"

datatype Event = Probe string | ApiRequest string | GitClone string

text \<open>
  \<open>strings.ToLower\<close>. The library first scans the bytes: when all are below \<open>0x80\<close> it
  adds \<open>'a' - 'A'\<close> to each byte in \<open>'A'..'Z'\<close> and keeps the others. Otherwise it returns
  \<open>Map(unicode.ToLower, s)\<close>, which decodes UTF-8, lowers every letter by the Unicode
  tables and writes U+FFFD for each invalid byte; that branch is the world's
  \<open>unicodeToLower\<close> and nothing is assumed about it.
\<close>

definition isASCII :: "string \<Rightarrow> bool" where
  "isASCII s = list_all (\<lambda>c. (of_char c :: nat) < 128) s"

definition lowerChar :: "char \<Rightarrow> char" where
  "lowerChar c = (let n = (of_char c :: nat) in if 65 \<le> n \<and> n \<le> 90 then char_of (n + 32) else c)"

definition toLower :: "World \<Rightarrow> string \<Rightarrow> string" where
  "toLower w s = (if isASCII s then map lowerChar s else unicodeToLower w s)"

section \<open>Host dialect detection and repository listing (api.go)\<close>

datatype fetchFunc = fetchGitHub | fetchGitLab | fetchGitea

text \<open>The closure \<open>check\<close> of \<open>detectAPI\<close>: one GET, successful on status 200, 401 or 403.\<close>

definition check :: "World \<Rightarrow> string \<Rightarrow> string \<Rightarrow> bool" where
  "check w host path =
     (case probeGet w (''https://'' @ host @ path) of
        None \<Rightarrow> False
      | Some status \<Rightarrow> status = 200 \<or> status = 401 \<or> status = 403)"

definition detectAPI :: "World \<Rightarrow> string \<Rightarrow> fetchFunc option \<times> Event list" where
  "detectAPI w host0 =
     (let host = toLower w host0
      in if hasSuffix host ''github.com'' then (Some fetchGitHub, [])
         else if hasSuffix host ''gitlab.com'' then (Some fetchGitLab, [])
         else if hasSuffix host ''gitea.com'' \<or> hasSuffix host ''codeberg.org''
                 \<or> hasSuffix host ''forgejo.org'' then (Some fetchGitea, [])
         else if check w host ''/api/v3''
              then (Some fetchGitHub, [Probe (''https://'' @ host @ ''/api/v3'')])
         else if check w host ''/api/v4/version''
              then (Some fetchGitLab, [Probe (''https://'' @ host @ ''/api/v3''),
                                       Probe (''https://'' @ host @ ''/api/v4/version'')])
         else if check w host ''/api/v1/version''
              then (Some fetchGitea, [Probe (''https://'' @ host @ ''/api/v3''),
                                      Probe (''https://'' @ host @ ''/api/v4/version''),
                                      Probe (''https://'' @ host @ ''/api/v1/version'')])
         else (None, [Probe (''https://'' @ host @ ''/api/v3''),
                      Probe (''https://'' @ host @ ''/api/v4/version''),
                      Probe (''https://'' @ host @ ''/api/v1/version'')]))"

text \<open>
  How a fetcher can end without a list: the errors it returns, and \<open>Panicked\<close> for a
  failed type assertion, which returns nothing and unwinds through the callers.
\<close>

datatype FetchError =
    RequestError | BadStatus nat | ReadError | ParseError | UnsupportedHost | Panicked panic

text \<open>The request, status and body steps that the three fetchers share line for line.\<close>

definition fetchBody :: "World \<Rightarrow> string \<Rightarrow> FetchError + string" where
  "fetchBody w apiURL =
     (case apiGet w apiURL of
        None \<Rightarrow> Inl RequestError
      | Some (status, body) \<Rightarrow>
          if status \<noteq> 200 then Inl (BadStatus status)
          else (case body of None \<Rightarrow> Inl ReadError | Some b \<Rightarrow> Inr b))"

text \<open>The listing URL that each fetcher builds (\<open>apiURL\<close>).\<close>

definition gitHubAPIURL :: "string \<Rightarrow> string" where
  "gitHubAPIURL username =
     ''https://api.github.com/users/'' @ username
       @ ''/repos?type=public&sort=pushed&direction=desc&per_page=100''"

definition gitLabAPIURL :: "string \<Rightarrow> string \<Rightarrow> string" where
  "gitLabAPIURL host username =
     (let apiBase = (if contains host ''gitlab''
                     then ''https://'' @ host @ ''/api/v4/users/'' @ username @ ''/projects''
                     else ''https://'' @ host @ ''/api/v1/users/'' @ username @ ''/repos'')
      in apiBase @ ''?order_by=last_activity_at&sort=desc&per_page=100&per_page=100'')"

definition giteaAPIURL :: "string \<Rightarrow> string \<Rightarrow> string" where
  "giteaAPIURL host username =
     ''https://'' @ host @ ''/api/v1/users/'' @ username @ ''/repos?sort=updated&limit=100''"

definition fetchGitHubRepoURLs :: "World \<Rightarrow> string \<Rightarrow> string \<Rightarrow> (FetchError + string list) \<times> Event list" where
  "fetchGitHubRepoURLs w host username =
     (let apiURL = gitHubAPIURL username
      in (case fetchBody w apiURL of
            Inl e \<Rightarrow> Inl e
          | Inr body \<Rightarrow>
              (case unmarshalGitHub w body of
                 None \<Rightarrow> Inl ParseError
               | Some repos \<Rightarrow> Inr (map (\<lambda>cloneURL. cloneURL) repos)),
          [ApiRequest apiURL]))"

text \<open>
  The loop of \<open>fetchGitLabRepoURLs\<close>: the first of three keys holding a non-nil value is
  taken, and the type assertion \<open>.(string)\<close> panics on a value that is not a string.
\<close>

definition notNil :: "Any option \<Rightarrow> bool" where
  "notNil v = (v \<noteq> None \<and> v \<noteq> Some AnyNil)"

definition assertString :: "Any option \<Rightarrow> panic + string" where
  "assertString v = (case v of Some (AnyString s) \<Rightarrow> Inr s | _ \<Rightarrow> Inl TypeAssertion)"

fun gitLabURLs :: "(string \<rightharpoonup> Any) list \<Rightarrow> string list \<Rightarrow> panic + string list" where
  "gitLabURLs [] urls = Inr urls"
| "gitLabURLs (repo # repos) urls =
     (if notNil (repo ''http_url_to_repo'')
      then (case assertString (repo ''http_url_to_repo'') of
              Inl p \<Rightarrow> Inl p | Inr s \<Rightarrow> gitLabURLs repos (urls @ [s]))
      else if notNil (repo ''clone_url'')
      then (case assertString (repo ''clone_url'') of
              Inl p \<Rightarrow> Inl p | Inr s \<Rightarrow> gitLabURLs repos (urls @ [s]))
      else if notNil (repo ''ssh_url_to_repo'')
      then (case assertString (repo ''ssh_url_to_repo'') of
              Inl p \<Rightarrow> Inl p | Inr s \<Rightarrow> gitLabURLs repos (urls @ [s]))
      else gitLabURLs repos urls)"

definition fetchGitLabRepoURLs :: "World \<Rightarrow> string \<Rightarrow> string \<Rightarrow> (FetchError + string list) \<times> Event list" where
  "fetchGitLabRepoURLs w host username =
     (if \<not> contains host ''gitlab'' \<and> \<not> contains host ''gitea'' then (Inl UnsupportedHost, [])
      else
        (let apiURL = gitLabAPIURL host username
         in (case fetchBody w apiURL of
               Inl e \<Rightarrow> Inl e
             | Inr body \<Rightarrow>
                 (case unmarshalGitLab w body of
                    None \<Rightarrow> Inl ParseError
                  | Some repos \<Rightarrow>
                      (case gitLabURLs repos [] of
                         Inl p \<Rightarrow> Inl (Panicked p) | Inr urls \<Rightarrow> Inr urls)),
             [ApiRequest apiURL])))"

fun giteaURLs :: "string \<Rightarrow> GiteaRepo list \<Rightarrow> string list \<Rightarrow> string list" where
  "giteaURLs host [] urls = urls"
| "giteaURLs host (r # rs) urls =
     (if CloneURL r \<noteq> [] then giteaURLs host rs (urls @ [CloneURL r])
      else if SSHURL r \<noteq> [] then giteaURLs host rs (urls @ [SSHURL r])
      else if FullName r \<noteq> [] then giteaURLs host rs (urls @ [''https://'' @ host @ ''/'' @ FullName r @ ''.git''])
      else giteaURLs host rs urls)"

definition fetchGiteaRepoURLs :: "World \<Rightarrow> string \<Rightarrow> string \<Rightarrow> (FetchError + string list) \<times> Event list" where
  "fetchGiteaRepoURLs w host username =
     (let apiURL = giteaAPIURL host username
      in (case fetchBody w apiURL of
            Inl e \<Rightarrow> Inl e
          | Inr body \<Rightarrow>
              (case unmarshalGitea w body of
                 None \<Rightarrow> Inl ParseError
               | Some repos \<Rightarrow> Inr (giteaURLs host repos [])),
          [ApiRequest apiURL]))"

text \<open>
  Calling the function value that \<open>detectAPI\<close> returned. The last revision of main.go
  passes the flags as a third argument; the fetchers of api.go take the host and the
  account only.
\<close>

fun fetcher :: "fetchFunc \<Rightarrow> World \<Rightarrow> string \<Rightarrow> string \<Rightarrow> (FetchError + string list) \<times> Event list" where
  "fetcher fetchGitHub w host username = fetchGitHubRepoURLs w host username"
| "fetcher fetchGitLab w host username = fetchGitLabRepoURLs w host username"
| "fetcher fetchGitea w host username = fetchGiteaRepoURLs w host username"

section \<open>Commit filtering, sources and subjects (main.go)\<close>

text \<open>
  \<open>validateCommit\<close> reads the global \<open>flags.Since\<close>; the flags are an argument here.
  \<open>When.After(Since)\<close> is the strict order of instants.
\<close>

definition validateCommit :: "World \<Rightarrow> Flags \<Rightarrow> Commit \<Rightarrow> string \<Rightarrow> string \<Rightarrow> bool" where
  "validateCommit w flags commit subjectName githubUsername =
     (if \<not> (CommitterWhen commit > Since flags) then False
      else
        (let authorName = toLower w (AuthorName commit);
             authorEmail = toLower w (AuthorEmail commit)
         in if contains authorName (toLower w subjectName) then True
            else if githubUsername \<noteq> []
            then (let username = toLower w githubUsername
                  in if contains authorName username then True
                     else if contains authorEmail (username @ ''@users.noreply.github.com'') then True
                     else if hasPrefix authorEmail (username @ ''@'') then True
                     else False)
            else False))"

text \<open>
  \<open>getRepo\<close>: clone, resolve HEAD, open the log, walk it. Each of the four failures is
  logged and gives \<open>(nil, nil)\<close>; otherwise the commits passing \<open>validateCommit\<close> are
  returned in log order.
\<close>

definition getRepo :: "World \<Rightarrow> Flags \<Rightarrow> string \<Rightarrow> string \<Rightarrow> string \<Rightarrow> (string \<times> Commit list) option" where
  "getRepo w flags repoURL subjectName sourceUser =
     (case gitClone w repoURL of
        CloneError \<Rightarrow> None
      | HeadError \<Rightarrow> None
      | LogError \<Rightarrow> None
      | IterError \<Rightarrow> None
      | CommitLog cs \<Rightarrow> Some (repoURL, filter (\<lambda>c. validateCommit w flags c subjectName sourceUser) cs))"

text \<open>The loop at the end of \<open>getSource\<close>, over the clone URLs.\<close>

fun getRepos :: "World \<Rightarrow> Flags \<Rightarrow> string \<Rightarrow> string \<Rightarrow> string list \<Rightarrow> Source \<Rightarrow> Commit list \<Rightarrow> Source \<times> Commit list" where
  "getRepos w flags subjectName sourceUser [] source allCommits = (source, allCommits)"
| "getRepos w flags subjectName sourceUser (repoURL # repoURLs) source allCommits =
     (case getRepo w flags repoURL subjectName sourceUser of
        None \<Rightarrow> getRepos w flags subjectName sourceUser repoURLs source allCommits
      | Some (repo, commits) \<Rightarrow>
          getRepos w flags subjectName sourceUser repoURLs
            (source\<lparr>srcRepos := srcRepos source @ [repo]\<rparr>) (allCommits @ commits))"

text \<open>
  \<open>getSource\<close>. \<open>parts[0]\<close> is the head of a slice that \<open>strings.Split\<close> never returns
  empty. The result is the source with its accepted commits, or nothing where the code
  logs and returns \<open>(nil, nil)\<close>, or the panic of the fetcher, which nothing recovers
  and which ends the process; with it come the network events in order.
\<close>

definition getSource :: "World \<Rightarrow> Flags \<Rightarrow> string \<Rightarrow> string \<Rightarrow> (panic + (Source \<times> Commit list) option) \<times> Event list" where
  "getSource w flags rawURL0 subjectName =
     (let rawURL = (if \<not> hasPrefix rawURL0 ''http://'' \<and> \<not> hasPrefix rawURL0 ''https://''
                    then ''https://'' @ rawURL0 else rawURL0)
      in case urlParse w rawURL of
           None \<Rightarrow> (Inr None, [])
         | Some (host, parsedPath) \<Rightarrow>
             (let path = trim parsedPath (CHR ''/'')
              in if path = [] then (Inr None, [])
                 else
                   (let parts = splitOn (CHR ''/'') path;
                        user = hd parts;
                        repoName = (if length parts > 1 then parts ! 1 else []);
                        source = \<lparr>srcURL = rawURL, srcHost = host, srcUser = user, srcRepos = []\<rparr>
                    in if repoName \<noteq> []
                       then (let cloneURL = ''https://'' @ host @ ''/'' @ user @ ''/'' @ repoName @ ''.git'';
                                 repoURLs = [cloneURL]
                             in (Inr (Some (getRepos w flags subjectName user repoURLs source [])),
                                 map GitClone repoURLs))
                       else (case detectAPI w host of
                               (None, probes) \<Rightarrow> (Inr None, probes)
                             | (Some f, probes) \<Rightarrow>
                                 (case fetcher f w host user of
                                    (Inl e, calls) \<Rightarrow>
                                      (case e of
                                         Panicked p \<Rightarrow> (Inl p, probes @ calls)
                                       | _ \<Rightarrow> (Inr None, probes @ calls))
                                  | (Inr repoURLs, calls) \<Rightarrow>
                                      (Inr (Some (getRepos w flags subjectName user repoURLs source [])),
                                       probes @ calls @ map GitClone repoURLs))))))"

text \<open>The inner loop of \<open>getSubject\<close>: \<open>subject.Commits[commit.Hash] = commit\<close>.\<close>

fun insertCommits :: "Commit list \<Rightarrow> (string \<rightharpoonup> Commit) \<Rightarrow> (string \<rightharpoonup> Commit)" where
  "insertCommits [] m = m"
| "insertCommits (commit # commits) m = insertCommits commits (m(Hash commit \<mapsto> commit))"

text \<open>
  The loop of \<open>getSubject\<close> over the source URLs. A panic in a source ends the run: no
  subject is returned.
\<close>

fun getSources :: "World \<Rightarrow> Flags \<Rightarrow> string \<Rightarrow> string list \<Rightarrow> Subject \<Rightarrow> Event list \<Rightarrow> (panic + Subject) \<times> Event list" where
  "getSources w flags name [] subject events = (Inr subject, events)"
| "getSources w flags name (sourceURL # sourceURLs) subject events =
     (case getSource w flags sourceURL name of
        (Inl p, es) \<Rightarrow> (Inl p, events @ es)
      | (Inr None, es) \<Rightarrow> getSources w flags name sourceURLs subject (events @ es)
      | (Inr (Some (source, commits)), es) \<Rightarrow>
          getSources w flags name sourceURLs
            (subject\<lparr>Sources := Sources subject @ [source],
                     Commits := insertCommits commits (Commits subject)\<rparr>)
            (events @ es))"

definition getSubject :: "World \<Rightarrow> Flags \<Rightarrow> string \<Rightarrow> string list \<Rightarrow> (panic + Subject) \<times> Event list" where
  "getSubject w flags name sourceURLs =
     getSources w flags name sourceURLs \<lparr>Name = name, Sources = [], Commits = Map.empty\<rparr> []"

text \<open>\<open>log.Fatalf\<close> ends the process; the message is kept.\<close>

datatype fatal = Fatal string

definition buildSubjectFromFlag :: "World \<Rightarrow> Flags \<Rightarrow> string \<Rightarrow> fatal + (panic + Subject) \<times> Event list" where
  "buildSubjectFromFlag w flags userFlag =
     (let parts = splitOn (CHR ''@'') userFlag
      in if length parts \<noteq> 2 then Inl (Fatal ''Invalid format, expected: name@url1,url2'')
         else (let name = parts ! 0;
                   urls = splitOn (CHR '','') (parts ! 1)
               in Inr (getSubject w flags name urls)))"

section \<open>The earlier \<open>parseSource\<close> (main.go, first revision)\<close>

text \<open>
  This revision resolves the fetcher before it looks at the repository name, and clones
  in the same function; a source keeps the URLs whose clone succeeded. It returns a
  source or an error, unless the fetcher panics.
\<close>

datatype SourceError = ParseFailed | NoPath | UnknownAPI | FetchFailed FetchError

fun cloneAll :: "World \<Rightarrow> string list \<Rightarrow> Source \<Rightarrow> Source" where
  "cloneAll w [] res = res"
| "cloneAll w (repoURL # repoURLs) res =
     (case gitClone w repoURL of
        CloneError \<Rightarrow> cloneAll w repoURLs res
      | _ \<Rightarrow> cloneAll w repoURLs (res\<lparr>srcRepos := srcRepos res @ [repoURL]\<rparr>))"

definition parseSource :: "World \<Rightarrow> string \<Rightarrow> (panic + SourceError + Source) \<times> Event list" where
  "parseSource w raw0 =
     (let raw = (if \<not> hasPrefix raw0 ''http://'' \<and> \<not> hasPrefix raw0 ''https://''
                 then ''https://'' @ raw0 else raw0)
      in case urlParse w raw of
           None \<Rightarrow> (Inr (Inl ParseFailed), [])
         | Some (host, parsedPath) \<Rightarrow>
             (let path = trim parsedPath (CHR ''/'')
              in if path = [] then (Inr (Inl NoPath), [])
                 else
                   (let parts = splitOn (CHR ''/'') path;
                        user = hd parts;
                        repoName = (if length parts \<ge> 2 then parts ! 1 else []);
                        res = \<lparr>srcURL = raw, srcHost = host, srcUser = user, srcRepos = []\<rparr>
                    in case detectAPI w host of
                         (None, probes) \<Rightarrow> (Inr (Inl UnknownAPI), probes)
                       | (Some f, probes) \<Rightarrow>
                           if repoName \<noteq> []
                           then (let cloneURL = ''https://'' @ host @ ''/'' @ user @ ''/'' @ repoName @ ''.git'';
                                     repoURLs = [cloneURL]
                                 in (Inr (Inr (cloneAll w repoURLs res)), probes @ map GitClone repoURLs))
                           else (case fetcher f w host user of
                                   (Inl e, calls) \<Rightarrow>
                                     (case e of
                                        Panicked p \<Rightarrow> (Inl p, probes @ calls)
                                      | _ \<Rightarrow> (Inr (Inl (FetchFailed e)), probes @ calls))
                                 | (Inr repoURLs, calls) \<Rightarrow>
                                     (Inr (Inr (cloneAll w repoURLs res)),
                                      probes @ calls @ map GitClone repoURLs)))))"

section \<open>The text histogram (output.go, \<open>printSleepHisto\<close>)\<close>

text \<open>
  The commits are the values of \<open>subject.Commits\<close> in the order in which the \<open>range\<close>
  statement happens to visit them. The first loop counts the author hours and tracks
  \<open>maxi\<close>; an hour outside the 24 buckets would panic at the increment.
\<close>

fun histoLoop :: "Commit list \<Rightarrow> nat list \<Rightarrow> nat \<Rightarrow> panic + nat list \<times> nat" where
  "histoLoop [] hourCounts maxi = Inr (hourCounts, maxi)"
| "histoLoop (c # cs) hourCounts maxi =
     (let hour = AuthorHour c
      in if hour < length hourCounts
         then histoLoop cs (hourCounts[hour := Suc (hourCounts ! hour)])
                (if hour > maxi then hour else maxi)
         else Inl IndexOutOfRange)"

text \<open>One printed line, \<open>"%02d:00 (%0*d): %s\n"\<close>.\<close>

definition histoLine :: "nat \<Rightarrow> nat \<Rightarrow> nat \<Rightarrow> string \<Rightarrow> string" where
  "histoLine hour width count hashtags =
     padZero 2 hour @ '':00 ('' @ padZero width count @ ''): '' @ hashtags @ [CHR 0x0A]"

text \<open>
  The printed lines and, when \<open>flags.Write\<close> is set, the bucket counts handed to \<open>save\<close>.
  The scaling factor of the first branch is a \<open>float64\<close>, taken as a rational.
\<close>

record HistoOutput =
  printed :: "string list"
  saved :: "nat list option"

definition printSleepHisto :: "Flags \<Rightarrow> Commit list \<Rightarrow> panic + HistoOutput" where
  "printSleepHisto flags commits =
     (case histoLoop commits (replicate 24 0) 0 of
        Inl p \<Rightarrow> Inl p
      | Inr (hourCounts, maxi) \<Rightarrow>
          (let width = length (sprintd maxi);
               rows = zip [0..<length hourCounts] hourCounts;
               out = (if maxi > 80
                      then (let scalingFactor = (80 :: rat) / of_nat maxi
                            in map (\<lambda>(hour, count).
                                 histoLine hour width count
                                   (replicate (nat (goTrunc (of_nat count * scalingFactor))) (CHR ''#'')))
                               rows)
                      else map (\<lambda>(hour, count).
                                 histoLine hour width count (replicate count (CHR ''#'')))
                               rows)
           in Inr \<lparr>printed = out, saved = (if Write flags then Some hourCounts else None)\<rparr>))"

section \<open>A small concrete world\<close>

text \<open>
  Inputs for evaluating the model: a cutoff at instant 100; four commits, one of them
  exactly at the cutoff; a self-hosted forge \<open>git.example.org\<close> that answers no probe and
  serves two repositories; and a listing API that answers every request with a page of
  101 repositories. All its strings are ASCII, so the Unicode branch of
  \<open>strings.ToLower\<close> is never entered.
\<close>

definition exFlags :: Flags where
  "exFlags = \<lparr>User = [], Since = 100, Write = True, StdOut = True,
               PlotScatter = False, PlotHisto = False\<rparr>"

definition exOld :: Commit where
  "exOld = \<lparr>Hash = ''c0'', AuthorName = ''Alice Smith'', AuthorEmail = ''alice@example.org'',
             AuthorHour = 9, CommitterWhen = 100\<rparr>"

definition exNew :: Commit where
  "exNew = \<lparr>Hash = ''c1'', AuthorName = ''Alice Smith'', AuthorEmail = ''Alice@Example.org'',
             AuthorHour = 23, CommitterWhen = 101\<rparr>"

definition exNoReply :: Commit where
  "exNoReply = \<lparr>Hash = ''c2'', AuthorName = ''Bob'',
                 AuthorEmail = ''1234+alice@users.noreply.gitlab.com'',
                 AuthorHour = 3, CommitterWhen = 200\<rparr>"

definition exByEmail :: Commit where
  "exByEmail = \<lparr>Hash = ''c3'', AuthorName = ''Bob'',
                 AuthorEmail = ''Alice@Users.NoReply.Example.org'',
                 AuthorHour = 7, CommitterWhen = 150\<rparr>"

definition exWorld :: World where
  "exWorld =
     \<lparr>unicodeToLower = (\<lambda>s. s),
      urlParse = (\<lambda>u. if u = ''https://git.example.org/alice/proj''
                       then Some (''git.example.org'', ''/alice/proj'')
                       else if u = ''https://git.example.org/alice/mirror''
                       then Some (''git.example.org'', ''/alice/mirror'')
                       else None),
      probeGet = (\<lambda>u. None),
      apiGet = (\<lambda>u. Some (200, Some ''page'')),
      unmarshalGitHub = (\<lambda>b. Some (replicate 101 ''https://github.com/alice/r.git'')),
      unmarshalGitLab = (\<lambda>b. Some (replicate 101
                            [''http_url_to_repo'' \<mapsto> AnyString ''https://gitlab.com/alice/r.git''])),
      unmarshalGitea = (\<lambda>b. Some (replicate 101
                            \<lparr>CloneURL = ''https://codeberg.org/alice/r.git'', SSHURL = [], FullName = []\<rparr>)),
      gitClone = (\<lambda>u. if u = ''https://git.example.org/alice/proj.git''
                       then CommitLog [exOld, exNew, exNoReply]
                       else if u = ''https://git.example.org/alice/mirror.git''
                       then CommitLog [exNew]
                       else CloneError)\<rparr>"

section \<open>Properties of the estimator\<close>

lemma goTrunc_nonneg: "0 \<le> q \<Longrightarrow> goTrunc q = \<lfloor>q\<rfloor>"
  by (simp add: goTrunc_def)

lemma threshold_quotient: "\<lfloor>(of_nat n :: rat) / 24 * (5 / 100)\<rfloor> = int (n div 480)"
proof -
  have "(of_nat n :: rat) / 24 * (5 / 100) = of_int (int n) / of_int 480"
    by simp
  then have "\<lfloor>(of_nat n :: rat) / 24 * (5 / 100)\<rfloor> = int n div 480"
    by (simp only: floor_divide_of_int_eq)
  then show ?thesis
    by (simp add: zdiv_int)
qed

lemma lowActivityThreshold_div: "lowActivityThreshold n = max 1 (n div 480)"
proof -
  have "goTrunc ((of_nat n :: rat) / 24 * (5 / 100)) = int (n div 480)"
    using threshold_quotient [of n] by (simp add: goTrunc_nonneg)
  then show ?thesis
    by (auto simp: lowActivityThreshold_def Let_def max_def)
qed


lemma estimate_816:
  "estimateSleepSchedule (replicate 816 \<lparr>Timestamp = 0, TimeOfDay = 0\<rparr>)
     = Inr (SleepWindow 1 0 23 816 1)"
  by code_simp

text \<open>
  C1 (as stated): the threshold would be the 5\%-of-average value rounded to the nearest
  integer, at least 1. With 816 commits the average is 34 per hour and 5\% of it is 1.7,
  which rounds to 2; the code converts with \<open>int(...)\<close> and reports 1.
\<close>

theorem C1_rounding_counterexample:
  "replicate 816 \<lparr>Timestamp = 0, TimeOfDay = 0\<rparr> \<noteq> []
   \<and> estimateSleepSchedule (replicate 816 \<lparr>Timestamp = 0, TimeOfDay = 0\<rparr>)
       = Inr (SleepWindow 1 0 23 816 1)
   \<and> int (lowActivityThreshold (length (replicate 816 \<lparr>Timestamp = 0, TimeOfDay = 0\<rparr>)))
       \<noteq> max 1 (round ((5 / 100) * (of_nat (length (replicate 816 \<lparr>Timestamp = 0, TimeOfDay = 0\<rparr>)) / 24 :: rat)))"
proof -
  have "round ((5 / 100) * (816 / 24) :: rat) = 2"
    by code_simp
  then show ?thesis
    by (simp add: estimate_816 lowActivityThreshold_div)
qed

text \<open>
  C1 (amended): for every non-empty commit list the threshold is the 5\%-of-average value
  with its fraction dropped, at least 1, that is \<open>max 1 (total div 480)\<close>; this is the
  threshold that a reported window carries.
\<close>

theorem C1_threshold_truncated:
  assumes "commits \<noteq> []"
  shows "int (lowActivityThreshold (length commits))
           = max 1 \<lfloor>(5 / 100) * (of_nat (length commits) / 24 :: rat)\<rfloor>
         \<and> lowActivityThreshold (length commits) = max 1 (length commits div 480)
         \<and> (\<forall>s e d b t. estimateSleepSchedule commits = Inr (SleepWindow s e d b t)
               \<longrightarrow> t = max 1 (length commits div 480))"
proof -
  have "\<lfloor>(5 / 100) * (of_nat (length commits) / 24 :: rat)\<rfloor> = int (length commits div 480)"
    using threshold_quotient [of "length commits"] by (simp add: mult.commute)
  moreover have "\<forall>s e d b t. estimateSleepSchedule commits = Inr (SleepWindow s e d b t)
               \<longrightarrow> t = lowActivityThreshold (length commits)"
    using assms
    by (auto simp: estimateSleepSchedule_def Let_def split: sum.splits if_splits)
  ultimately show ?thesis
    by (simp add: lowActivityThreshold_div)
qed

theorem C1_threshold_truncated_witness:
  "replicate 816 \<lparr>Timestamp = 0, TimeOfDay = 0\<rparr> \<noteq> []
   \<and> lowActivityThreshold (length (replicate 816 \<lparr>Timestamp = 0, TimeOfDay = 0\<rparr>)) = 1
   \<and> estimateSleepSchedule (replicate 816 \<lparr>Timestamp = 0, TimeOfDay = 0\<rparr>)
       = Inr (SleepWindow 1 0 23 816 (max 1 (816 div 480)))"
proof -
  have ne: "replicate 816 \<lparr>Timestamp = 0, TimeOfDay = 0\<rparr> \<noteq> []"
    by simp
  show ?thesis
    using C1_threshold_truncated [OF ne] estimate_816 by simp
qed

lemma scanUpto_Suc:
  "scanUpto hourCounts th (Suc n) = scanStep hourCounts th (scanUpto hourCounts th n) n"
  by (simp add: scanUpto_def)

lemma scanUpto_all_low:
  assumes "\<forall>h < 24. hourCounts ! h \<le> th"
  shows "scanUpto hourCounts th (Suc n)
           = \<lparr>longestStart = 0, longestLen = Suc n, currentStart = 0, currentLen = Suc n\<rparr>"
proof (induction n)
  case 0
  from assms have "hourCounts ! 0 \<le> th" by simp
  then show ?case
    by (simp add: scanUpto_def scanStep_def scanInit_def)
next
  case (Suc n)
  from assms have "hourCounts ! (Suc n mod 24) \<le> th" by simp
  then show ?case
    by (simp add: scanUpto_Suc [of _ _ "Suc n"] Suc.IH scanStep_def)
qed

lemma longestLowRun_all_low:
  "\<forall>h < 24. hourCounts ! h \<le> th \<Longrightarrow>
     longestLowRun hourCounts th
       = \<lparr>longestStart = 0, longestLen = 48, currentStart = 0, currentLen = 48\<rparr>"
  using scanUpto_all_low [of hourCounts th 47] by (simp add: longestLowRun_def)

text \<open>
  C2: when every bucket is at or below the threshold the reported length should be capped
  at 24, with the start at the first hour of the scan. A single commit at noon puts every
  bucket at or below the threshold 1: the start is hour 0 as claimed, but the loop keeps
  counting through its second lap and the reported duration is 48 hours, as it is
  whenever all 24 buckets are low (\<open>longestLowRun_all_low\<close>).
\<close>

theorem C2_full_wrap_reports_48:
  "estimateSleepSchedule [\<lparr>Timestamp = 0, TimeOfDay = 43200\<rparr>] = Inr (SleepWindow 0 0 48 1 1)"
  by code_simp


subsection \<open>The longest-run scan\<close>

lemma lowRun_iff:
  "lowRun hc th n j l \<longleftrightarrow> j + l \<le> n \<and> (\<forall>k. j \<le> k \<and> k < j + l \<longrightarrow> low hc th k)"
  by (auto simp: lowRun_def list_all_iff)

lemma scanStep_low:
  assumes "low hc th i"
  shows "currentLen (scanStep hc th st i) = Suc (currentLen st)"
    and "currentStart (scanStep hc th st i) = (if currentLen st = 0 then int (i mod 24) else currentStart st)"
    and "longestLen (scanStep hc th st i) = (if Suc (currentLen st) > longestLen st then Suc (currentLen st) else longestLen st)"
    and "longestStart (scanStep hc th st i) = (if Suc (currentLen st) > longestLen st then (if currentLen st = 0 then int (i mod 24) else currentStart st) else longestStart st)"
  using assms by (simp_all add: scanStep_def low_def Let_def)

lemma scanStep_high:
  assumes "\<not> low hc th i"
  shows "currentLen (scanStep hc th st i) = 0"
    and "longestLen (scanStep hc th st i) = longestLen st"
    and "longestStart (scanStep hc th st i) = longestStart st"
  using assms by (simp_all add: scanStep_def low_def Let_def)


lemma current_run:
  "currentLen (scanUpto hc th n) \<le> n
   \<and> (\<forall>k. n - currentLen (scanUpto hc th n) \<le> k \<and> k < n \<longrightarrow> low hc th k)
   \<and> (currentLen (scanUpto hc th n) < n \<longrightarrow> \<not> low hc th (n - currentLen (scanUpto hc th n) - 1))
   \<and> (currentLen (scanUpto hc th n) > 0 \<longrightarrow>
        currentStart (scanUpto hc th n) = int ((n - currentLen (scanUpto hc th n)) mod 24))"
proof (induction n)
  case 0
  show ?case by (simp add: scanUpto_def scanInit_def)
next
  case (Suc n)
  show ?case
  proof (cases "low hc th n")
    case True
    have "\<And>k. n - currentLen (scanUpto hc th n) \<le> k \<Longrightarrow> k < Suc n \<Longrightarrow> low hc th k"
      using Suc.IH True less_Suc_eq by auto
    with Suc.IH True show ?thesis
      by (auto simp: scanUpto_Suc scanStep_low)
  next
    case False
    then show ?thesis
      by (auto simp: scanUpto_Suc scanStep_high)
  qed
qed

lemma lowRun_end:
  assumes "lowRun hc th (Suc n) j l" and "\<not> j + l \<le> n"
  shows "j + l = Suc n" and "\<And>k. j \<le> k \<Longrightarrow> k \<le> n \<Longrightarrow> low hc th k"
  using assms by (auto simp: lowRun_iff)

lemma lowRun_mono: "lowRun hc th n j l \<Longrightarrow> lowRun hc th (Suc n) j l"
  by (simp add: lowRun_iff)

lemma lowRun_within: "lowRun hc th (Suc n) j l \<Longrightarrow> j + l \<le> n \<Longrightarrow> lowRun hc th n j l"
  by (simp add: lowRun_iff)

text \<open>A run that ends at step n is no longer than the current run after that step.\<close>

lemma lowRun_end_le_current:
  assumes "lowRun hc th (Suc n) j l" and "\<not> j + l \<le> n"
  shows "l \<le> currentLen (scanUpto hc th (Suc n))"
proof (cases "l = 0")
  case True
  then show ?thesis by simp
next
  case False
  let ?c = "currentLen (scanUpto hc th (Suc n))"
  from lowRun_end [OF assms] have e: "j + l = Suc n" and a: "\<And>k. j \<le> k \<Longrightarrow> k \<le> n \<Longrightarrow> low hc th k"
    by auto
  show ?thesis
  proof (rule ccontr)
    assume "\<not> l \<le> ?c"
    then have lt: "?c < l" by simp
    with e have c: "?c < Suc n" and "j \<le> Suc n - ?c - 1" and "Suc n - ?c - 1 \<le> n"
      by auto
    with a have "low hc th (Suc n - ?c - 1)" by blast
    moreover from current_run [of hc th "Suc n"] c have "\<not> low hc th (Suc n - ?c - 1)"
      by blast
    ultimately show False by simp
  qed
qed

lemma current_is_run:
  "lowRun hc th n (n - currentLen (scanUpto hc th n)) (currentLen (scanUpto hc th n))"
  using current_run [of hc th n] by (auto simp: lowRun_iff)

lemma current_le_longest: "currentLen (scanUpto hc th n) \<le> longestLen (scanUpto hc th n)"
proof (induction n)
  case 0
  show ?case by (simp add: scanUpto_def scanInit_def)
next
  case (Suc n)
  then show ?case
    by (cases "low hc th n") (simp_all add: scanUpto_Suc scanStep_low scanStep_high)
qed

lemma longestLen_mono: "longestLen (scanUpto hc th n) \<le> longestLen (scanUpto hc th (Suc n))"
  by (cases "low hc th n") (simp_all add: scanUpto_Suc scanStep_low scanStep_high)

lemma longest_is_max: "lowRun hc th n j l \<Longrightarrow> l \<le> longestLen (scanUpto hc th n)"
proof (induction n arbitrary: j l)
  case 0
  then show ?case by (simp add: lowRun_iff)
next
  case (Suc n)
  show ?case
  proof (cases "j + l \<le> n")
    case True
    with Suc.prems have "lowRun hc th n j l" by (rule lowRun_within)
    then have "l \<le> longestLen (scanUpto hc th n)" by (rule Suc.IH)
    with longestLen_mono [of hc th n] show ?thesis by simp
  next
    case False
    with Suc.prems have "l \<le> currentLen (scanUpto hc th (Suc n))"
      by (rule lowRun_end_le_current)
    with current_le_longest [of hc th "Suc n"] show ?thesis by simp
  qed
qed

lemma longest_is_first:
  "longestLen (scanUpto hc th n) > 0 \<Longrightarrow>
     \<exists>j. lowRun hc th n j (longestLen (scanUpto hc th n))
       \<and> longestStart (scanUpto hc th n) = int (j mod 24)
       \<and> (\<forall>j'. lowRun hc th n j' (longestLen (scanUpto hc th n)) \<longrightarrow> j \<le> j')"
proof (induction n)
  case 0
  then show ?case by (simp add: scanUpto_def scanInit_def)
next
  case (Suc n)
  let ?s = "scanUpto hc th n" and ?s' = "scanUpto hc th (Suc n)"
  show ?case
  proof (cases "longestLen ?s' = longestLen ?s")
    case same: True
    have start: "longestStart ?s' = longestStart ?s"
      using same current_le_longest [of hc th n]
      by (cases "low hc th n") (auto simp: scanUpto_Suc scanStep_low scanStep_high split: if_splits)
    from Suc.prems same have "longestLen ?s > 0" by simp
    from Suc.IH [OF this] obtain j where
      j: "lowRun hc th n j (longestLen ?s)" "longestStart ?s = int (j mod 24)"
         "\<And>j'. lowRun hc th n j' (longestLen ?s) \<Longrightarrow> j \<le> j'"
      by blast
    have "j \<le> j'" if r: "lowRun hc th (Suc n) j' (longestLen ?s)" for j'
    proof (cases "j' + longestLen ?s \<le> n")
      case True
      with r have "lowRun hc th n j' (longestLen ?s)" by (rule lowRun_within)
      then show ?thesis by (rule j(3))
    next
      case False
      with r have "j' + longestLen ?s = Suc n" by (rule lowRun_end(1))
      moreover from j(1) have "j + longestLen ?s \<le> n" by (simp add: lowRun_iff)
      ultimately show ?thesis by simp
    qed
    with j(1,2) same start lowRun_mono [OF j(1)] show ?thesis
      by auto
  next
    case changed: False
    have lown: "low hc th n"
      using changed by (cases "low hc th n") (simp_all add: scanUpto_Suc scanStep_high)
    have len: "longestLen ?s' = Suc (currentLen ?s)" and gt: "longestLen ?s < Suc (currentLen ?s)"
      using changed lown by (auto simp: scanUpto_Suc scanStep_low split: if_splits)
    have cur: "currentLen ?s' = Suc (currentLen ?s)"
      using lown by (simp add: scanUpto_Suc scanStep_low)
    have start: "longestStart ?s' = currentStart ?s'"
      using lown gt by (simp add: scanUpto_Suc scanStep_low)
    let ?j = "Suc n - currentLen ?s'"
    have run: "lowRun hc th (Suc n) ?j (longestLen ?s')"
      using current_is_run [of hc th "Suc n"] len cur by simp
    have st: "longestStart ?s' = int (?j mod 24)"
      using current_run [of hc th "Suc n"] start cur by simp
    have "?j \<le> j'" if r: "lowRun hc th (Suc n) j' (longestLen ?s')" for j'
    proof (cases "j' + longestLen ?s' \<le> n")
      case True
      with r have "lowRun hc th n j' (longestLen ?s')" by (rule lowRun_within)
      then have "longestLen ?s' \<le> longestLen ?s" by (rule longest_is_max)
      with len gt show ?thesis by simp
    next
      case False
      with r have "j' + longestLen ?s' = Suc n" by (rule lowRun_end(1))
      with len cur show ?thesis by simp
    qed
    with run st show ?thesis by blast
  qed
qed

lemma estimate_reports_scan:
  assumes "estimateSleepSchedule commits = Inr (SleepWindow s e d b t)"
  shows "\<exists>hourCounts. countHours commits (replicate 24 0) = Inr hourCounts
           \<and> s = longestStart (longestLowRun hourCounts t)
           \<and> d = longestLen (longestLowRun hourCounts t) \<and> 4 \<le> d"
  using assms
  by (auto simp: estimateSleepSchedule_def Let_def split: sum.splits if_splits)

text \<open>
  C5: after the 48-step scan no run of low-activity steps is longer than the recorded
  length, and the recorded start is the hour of the lowest scan index at which a run of
  that length begins: a later run of the same length does not replace it. The window
  that \<open>estimateSleepSchedule\<close> reports is this first longest run.
\<close>

theorem C5_first_longest_run_wins:
  "(\<forall>j l. lowRun hourCounts th 48 j l \<longrightarrow> l \<le> longestLen (longestLowRun hourCounts th))
   \<and> (longestLen (longestLowRun hourCounts th) > 0 \<longrightarrow>
        (\<exists>j. lowRun hourCounts th 48 j (longestLen (longestLowRun hourCounts th))
           \<and> longestStart (longestLowRun hourCounts th) = int (j mod 24)
           \<and> (\<forall>j'. lowRun hourCounts th 48 j' (longestLen (longestLowRun hourCounts th))
                 \<longrightarrow> j \<le> j')))
   \<and> (\<forall>s e d b t. estimateSleepSchedule commits = Inr (SleepWindow s e d b t) \<longrightarrow>
        (\<exists>hc j. countHours commits (replicate 24 0) = Inr hc
           \<and> lowRun hc t 48 j d \<and> s = int (j mod 24)
           \<and> (\<forall>j'. lowRun hc t 48 j' d \<longrightarrow> j \<le> j')
           \<and> (\<forall>j' l. lowRun hc t 48 j' l \<longrightarrow> l \<le> d)))"
proof (intro conjI allI impI)
  fix j l
  assume "lowRun hourCounts th 48 j l"
  then show "l \<le> longestLen (longestLowRun hourCounts th)"
    unfolding longestLowRun_def by (rule longest_is_max)
next
  assume "longestLen (longestLowRun hourCounts th) > 0"
  then show "\<exists>j. lowRun hourCounts th 48 j (longestLen (longestLowRun hourCounts th))
           \<and> longestStart (longestLowRun hourCounts th) = int (j mod 24)
           \<and> (\<forall>j'. lowRun hourCounts th 48 j' (longestLen (longestLowRun hourCounts th))
                 \<longrightarrow> j \<le> j')"
    unfolding longestLowRun_def by (rule longest_is_first)
next
  fix s e d b t
  assume "estimateSleepSchedule commits = Inr (SleepWindow s e d b t)"
  from estimate_reports_scan [OF this] obtain hc where
    hc: "countHours commits (replicate 24 0) = Inr hc"
        "s = longestStart (scanUpto hc t 48)" "d = longestLen (scanUpto hc t 48)" "4 \<le> d"
    unfolding longestLowRun_def by blast
  from hc(3,4) have "longestLen (scanUpto hc t 48) > 0" by simp
  from longest_is_first [OF this] hc(2,3) obtain j where
    "lowRun hc t 48 j d" "s = int (j mod 24)" "\<forall>j'. lowRun hc t 48 j' d \<longrightarrow> j \<le> j'"
    by auto
  moreover have "\<forall>j' l. lowRun hc t 48 j' l \<longrightarrow> l \<le> d"
    using longest_is_max [of hc t 48] hc(3) by simp
  ultimately show "\<exists>hc j. countHours commits (replicate 24 0) = Inr hc
           \<and> lowRun hc t 48 j d \<and> s = int (j mod 24)
           \<and> (\<forall>j'. lowRun hc t 48 j' d \<longrightarrow> j \<le> j')
           \<and> (\<forall>j' l. lowRun hc t 48 j' l \<longrightarrow> l \<le> d)"
    using hc(1) by blast
qed

text \<open>Hours 1--4 and 10--13 are quiet, a tie of two runs of four hours: hour 1 is reported.\<close>

theorem C5_first_longest_run_wins_witness:
  "lowRun [10, 0, 0, 0, 0, 10, 10, 10, 10, 10, 0, 0, 0, 0, 10, 10, 10, 10, 10, 10, 10, 10, 10, 10] 1 48 1 4
   \<and> lowRun [10, 0, 0, 0, 0, 10, 10, 10, 10, 10, 0, 0, 0, 0, 10, 10, 10, 10, 10, 10, 10, 10, 10, 10] 1 48 10 4
   \<and> longestLen (longestLowRun [10, 0, 0, 0, 0, 10, 10, 10, 10, 10, 0, 0, 0, 0, 10, 10, 10, 10, 10, 10, 10, 10, 10, 10] 1) = 4
   \<and> longestStart (longestLowRun [10, 0, 0, 0, 0, 10, 10, 10, 10, 10, 0, 0, 0, 0, 10, 10, 10, 10, 10, 10, 10, 10, 10, 10] 1) = 1
   \<and> (\<exists>j. j \<le> 10
         \<and> lowRun [10, 0, 0, 0, 0, 10, 10, 10, 10, 10, 0, 0, 0, 0, 10, 10, 10, 10, 10, 10, 10, 10, 10, 10] 1 48 j 4
         \<and> longestStart (longestLowRun [10, 0, 0, 0, 0, 10, 10, 10, 10, 10, 0, 0, 0, 0, 10, 10, 10, 10, 10, 10, 10, 10, 10, 10] 1)
             = int (j mod 24))"
proof -
  let ?h = "[10, 0, 0, 0, 0, 10, 10, 10, 10, 10, 0, 0, 0, 0, 10, 10, 10, 10, 10, 10, 10, 10, 10, 10] :: nat list"
  have r1: "lowRun ?h 1 48 1 4" by code_simp
  have r10: "lowRun ?h 1 48 10 4" by code_simp
  have len: "longestLen (longestLowRun ?h 1) = 4" by code_simp
  have start: "longestStart (longestLowRun ?h 1) = 1" by code_simp
  from C5_first_longest_run_wins [of ?h 1 "[]"] len
  obtain j where j: "lowRun ?h 1 48 j 4" "longestStart (longestLowRun ?h 1) = int (j mod 24)"
    "\<forall>j'. lowRun ?h 1 48 j' 4 \<longrightarrow> j \<le> j'"
    by auto
  from j(3) r10 have "j \<le> 10" by blast
  with j(1,2) r1 r10 len start show ?thesis by blast
qed


subsection \<open>Authorship and cutoff\<close>

lemma hasPrefix_prefix: "hasPrefix s p \<longleftrightarrow> prefix p s"
  by (induction s p rule: hasPrefix.induct) auto

lemma contains_sublist: "contains s sub \<longleftrightarrow> sublist sub s"
  by (induction s) (auto simp: hasPrefix_prefix sublist_Cons_right)

lemma isASCII_append: "isASCII (a @ b) \<longleftrightarrow> isASCII a \<and> isASCII b"
  by (simp add: isASCII_def)

lemma toLower_ascii: "isASCII s \<Longrightarrow> toLower w s = map lowerChar s"
  by (simp add: toLower_def)

lemma lower_noreply: "map lowerChar ''@users.noreply.'' = ''@'' @ ''users.noreply.''"
  by code_simp

text \<open>The decision of \<open>validateCommit\<close>, with the nested tests flattened.\<close>

lemma validateCommit_iff:
  "validateCommit w flags commit subjectName githubUsername \<longleftrightarrow>
     Since flags < CommitterWhen commit
     \<and> (contains (toLower w (AuthorName commit)) (toLower w subjectName)
        \<or> githubUsername \<noteq> []
          \<and> (contains (toLower w (AuthorName commit)) (toLower w githubUsername)
             \<or> contains (toLower w (AuthorEmail commit))
                  (toLower w githubUsername @ ''@users.noreply.github.com'')
             \<or> hasPrefix (toLower w (AuthorEmail commit)) (toLower w githubUsername @ ''@'')))"
  by (simp add: validateCommit_def Let_def)

text \<open>
  C3 (as stated): any author e-mail containing \<open>{account}@\<close> anywhere would be accepted.
  A commit after the cutoff by author \<open>Bob\<close> with the e-mail
  \<open>1234+alice@users.noreply.gitlab.com\<close> contains \<open>alice@\<close>, yet it is rejected for the
  account \<open>alice\<close> (subject \<open>carol\<close>): the substring test of the code is for
  \<open>alice@users.noreply.github.com\<close> only.
\<close>

theorem C3_narrow_counterexample:
  "CommitterWhen exNoReply > Since exFlags
   \<and> contains (toLower exWorld (AuthorEmail exNoReply)) (toLower exWorld ''alice'' @ ''@'')
   \<and> \<not> validateCommit exWorld exFlags exNoReply ''carol'' ''alice''"
  by code_simp

text \<open>
  C3 (amended): for a commit after the cutoff, seen under a non-empty account name, with
  all strings lower-cased by \<open>strings.ToLower\<close>: it is accepted whenever its author e-mail
  contains \<open>{account}@users.noreply.github.com\<close> anywhere or begins with \<open>{account}@\<close>;
  when the author name contains neither the subject's name nor the account, it is
  accepted in these two cases only, so that an e-mail with \<open>{account}@\<close> elsewhere is
  rejected; in particular an all-ASCII e-mail \<open>{account}@users.noreply.<host>\<close> is accepted
  on any host, through the prefix test.
\<close>

theorem C3_email_acceptance:
  assumes "CommitterWhen commit > Since flags"
  shows "(githubUsername \<noteq> []
            \<and> (contains (toLower w (AuthorEmail commit))
                  (toLower w githubUsername @ ''@users.noreply.github.com'')
               \<or> hasPrefix (toLower w (AuthorEmail commit)) (toLower w githubUsername @ ''@''))
          \<longrightarrow> validateCommit w flags commit subjectName githubUsername)
         \<and> (\<not> contains (toLower w (AuthorName commit)) (toLower w subjectName)
              \<and> \<not> contains (toLower w (AuthorName commit)) (toLower w githubUsername)
            \<longrightarrow> (validateCommit w flags commit subjectName githubUsername
                   \<longleftrightarrow> githubUsername \<noteq> []
                      \<and> (contains (toLower w (AuthorEmail commit))
                            (toLower w githubUsername @ ''@users.noreply.github.com'')
                         \<or> hasPrefix (toLower w (AuthorEmail commit))
                              (toLower w githubUsername @ ''@''))))
         \<and> (\<forall>anyHost. githubUsername \<noteq> [] \<and> isASCII githubUsername \<and> isASCII anyHost
               \<and> AuthorEmail commit = githubUsername @ ''@users.noreply.'' @ anyHost
               \<longrightarrow> validateCommit w flags commit subjectName githubUsername)"
proof -
  have "hasPrefix (toLower w (AuthorEmail commit)) (toLower w githubUsername @ ''@'')"
    if e: "AuthorEmail commit = githubUsername @ ''@users.noreply.'' @ anyHost"
      and a: "isASCII githubUsername" "isASCII anyHost" for anyHost
  proof -
    have "isASCII ''@users.noreply.''" by code_simp
    with a e have "isASCII (AuthorEmail commit)"
      by (simp only: isASCII_append simp_thms)
    then have "toLower w (AuthorEmail commit)
                 = map lowerChar githubUsername @ map lowerChar ''@users.noreply.''
                     @ map lowerChar anyHost"
      by (simp only: toLower_ascii e map_append)
    then have "toLower w (AuthorEmail commit)
                 = (toLower w githubUsername @ ''@'') @ ''users.noreply.'' @ map lowerChar anyHost"
      by (simp only: lower_noreply toLower_ascii [OF a(1)] append_assoc)
    then show ?thesis
      by (simp only: hasPrefix_prefix prefixI)
  qed
  then show ?thesis
    using assms by (auto simp: validateCommit_iff)
qed

text \<open>
  Author \<open>Bob\<close> matches neither the subject \<open>carol\<close> nor the account \<open>alice\<close>: the commit
  with the e-mail \<open>Alice@Users.NoReply.Example.org\<close> is accepted by its e-mail alone, and
  the one with \<open>1234+alice@users.noreply.gitlab.com\<close> is rejected.
\<close>

theorem C3_email_acceptance_witness:
  "CommitterWhen exByEmail > Since exFlags
   \<and> \<not> contains (toLower exWorld (AuthorName exByEmail)) (toLower exWorld ''carol'')
   \<and> \<not> contains (toLower exWorld (AuthorName exByEmail)) (toLower exWorld ''alice'')
   \<and> hasPrefix (toLower exWorld (AuthorEmail exByEmail)) (toLower exWorld ''alice'' @ ''@'')
   \<and> validateCommit exWorld exFlags exByEmail ''carol'' ''alice''
   \<and> CommitterWhen exNoReply > Since exFlags
   \<and> \<not> contains (toLower exWorld (AuthorEmail exNoReply))
          (toLower exWorld ''alice'' @ ''@users.noreply.github.com'')
   \<and> \<not> hasPrefix (toLower exWorld (AuthorEmail exNoReply)) (toLower exWorld ''alice'' @ ''@'')
   \<and> \<not> validateCommit exWorld exFlags exNoReply ''carol'' ''alice''"
proof -
  have a: "CommitterWhen exByEmail > Since exFlags" by code_simp
  have n1: "\<not> contains (toLower exWorld (AuthorName exByEmail)) (toLower exWorld ''carol'')"
    by code_simp
  have n2: "\<not> contains (toLower exWorld (AuthorName exByEmail)) (toLower exWorld ''alice'')"
    by code_simp
  have p: "hasPrefix (toLower exWorld (AuthorEmail exByEmail)) (toLower exWorld ''alice'' @ ''@'')"
    by code_simp
  have ne: "''alice'' \<noteq> []" by simp
  from C3_email_acceptance [OF a, of "''alice''" exWorld "''carol''"] ne p
  have acc: "validateCommit exWorld exFlags exByEmail ''carol'' ''alice''" by blast
  have b: "CommitterWhen exNoReply > Since exFlags" by code_simp
  have m1: "\<not> contains (toLower exWorld (AuthorName exNoReply)) (toLower exWorld ''carol'')"
    by code_simp
  have m2: "\<not> contains (toLower exWorld (AuthorName exNoReply)) (toLower exWorld ''alice'')"
    by code_simp
  have q1: "\<not> contains (toLower exWorld (AuthorEmail exNoReply))
               (toLower exWorld ''alice'' @ ''@users.noreply.github.com'')"
    by code_simp
  have q2: "\<not> hasPrefix (toLower exWorld (AuthorEmail exNoReply)) (toLower exWorld ''alice'' @ ''@'')"
    by code_simp
  from C3_email_acceptance [OF b, of "''alice''" exWorld "''carol''"] m1 m2 q1 q2
  have rej: "\<not> validateCommit exWorld exFlags exNoReply ''carol'' ''alice''" by blast
  from a n1 n2 p acc b q1 q2 rej show ?thesis by blast
qed

lemma validateCommit_after:
  "validateCommit w flags c subjectName u \<Longrightarrow> Since flags < CommitterWhen c"
  by (simp add: validateCommit_iff)

lemma getRepo_after:
  "getRepo w flags repoURL subjectName u = Some (repo, cs) \<Longrightarrow> \<forall>c \<in> set cs. Since flags < CommitterWhen c"
  by (auto simp: getRepo_def split: GitResult.splits dest: validateCommit_after)

lemma getRepos_after:
  "getRepos w flags subjectName u repoURLs source acc = (source', cs) \<Longrightarrow>
   \<forall>c \<in> set acc. Since flags < CommitterWhen c \<Longrightarrow> \<forall>c \<in> set cs. Since flags < CommitterWhen c"
proof (induction repoURLs arbitrary: source acc)
  case Nil
  then show ?case by simp
next
  case (Cons repoURL repoURLs)
  show ?case
  proof (cases "getRepo w flags repoURL subjectName u")
    case None
    with Cons show ?thesis by simp
  next
    case (Some r)
    obtain repo commits where r: "r = (repo, commits)" by (cases r)
    with Some have "\<forall>c \<in> set commits. Since flags < CommitterWhen c"
      using getRepo_after by blast
    with Cons.prems(2) have "\<forall>c \<in> set (acc @ commits). Since flags < CommitterWhen c"
      by auto
    with Cons.IH Cons.prems(1) Some r show ?thesis
      by simp
  qed
qed

lemma getSource_after:
  assumes "fst (getSource w flags rawURL subjectName) = Inr (Some (source, cs))"
  shows "\<forall>c \<in> set cs. Since flags < CommitterWhen c"
proof -
  from assms have "\<exists>u urls src0. getRepos w flags subjectName u urls src0 [] = (source, cs)"
    by (auto simp: getSource_def Let_def simp del: getRepos.simps
             split: option.splits if_splits prod.splits sum.splits FetchError.splits)
  then obtain u urls src0 where "getRepos w flags subjectName u urls src0 [] = (source, cs)"
    by blast
  then show ?thesis
    using getRepos_after [of w flags subjectName u urls src0 "[]" source cs] by simp
qed

lemma insertCommits_lookup:
  "insertCommits cs m h = Some c \<Longrightarrow> c \<in> set cs \<or> m h = Some c"
proof (induction cs arbitrary: m)
  case Nil
  then show ?case by simp
next
  case (Cons a cs)
  from Cons.prems have "insertCommits cs (m(Hash a \<mapsto> a)) h = Some c" by simp
  then have "c \<in> set cs \<or> (m(Hash a \<mapsto> a)) h = Some c" by (rule Cons.IH)
  then show ?case by (auto split: if_splits)
qed

text \<open>The three ways one round of the loop over the sources can go.\<close>

lemma getSources_Cons:
  "getSources w flags name (u # urls) subject events =
     (case fst (getSource w flags u name) of
        Inl p \<Rightarrow> (Inl p, events @ snd (getSource w flags u name))
      | Inr None \<Rightarrow> getSources w flags name urls subject (events @ snd (getSource w flags u name))
      | Inr (Some (source, commits)) \<Rightarrow>
          getSources w flags name urls
            (subject\<lparr>Sources := Sources subject @ [source],
                     Commits := insertCommits commits (Commits subject)\<rparr>)
            (events @ snd (getSource w flags u name)))"
  by (cases "getSource w flags u name") (simp split: sum.splits option.splits prod.splits)

lemma getSources_after:
  "fst (getSources w flags name urls subject events) = Inr subject' \<Longrightarrow>
   \<forall>h c. Commits subject h = Some c \<longrightarrow> Since flags < CommitterWhen c \<Longrightarrow>
   \<forall>h c. Commits subject' h = Some c \<longrightarrow> Since flags < CommitterWhen c"
proof (induction urls arbitrary: subject events)
  case Nil
  then show ?case by simp
next
  case (Cons u urls)
  show ?case
  proof (cases "fst (getSource w flags u name)")
    case (Inl p)
    with Cons.prems(1) show ?thesis
      by (simp add: getSources_Cons del: getSources.simps)
  next
    case (Inr r)
    show ?thesis
    proof (cases r)
      case None
      with Inr Cons show ?thesis
        by (simp add: getSources_Cons del: getSources.simps)
    next
      case (Some sc)
      obtain source commits where sc: "sc = (source, commits)" by (cases sc)
      with Inr Some have new: "\<forall>c \<in> set commits. Since flags < CommitterWhen c"
        using getSource_after by blast
      let ?subject = "subject\<lparr>Sources := Sources subject @ [source],
                              Commits := insertCommits commits (Commits subject)\<rparr>"
      have "\<forall>h c. Commits ?subject h = Some c \<longrightarrow> Since flags < CommitterWhen c"
        using new Cons.prems(2) insertCommits_lookup [of commits "Commits subject"] by fastforce
      moreover have "fst (getSources w flags name urls ?subject
                            (events @ snd (getSource w flags u name))) = Inr subject'"
        using Cons.prems(1) Inr Some sc by (simp add: getSources_Cons del: getSources.simps)
      ultimately show ?thesis
        by (rule Cons.IH [rotated])
    qed
  qed
qed

text \<open>
  C4: a commit whose committer time is at or before the cutoff is rejected whatever its
  author fields are; the commits that \<open>getRepo\<close> and \<open>getSource\<close> hand on, and every entry
  of the commit map of a subject that \<open>getSubject\<close> returns, have a committer time
  strictly after the cutoff.
\<close>

theorem C4_retained_after_cutoff:
  "(CommitterWhen commit \<le> Since flags \<longrightarrow> \<not> validateCommit w flags commit subjectName githubUsername)
   \<and> (\<forall>repo cs. getRepo w flags repoURL subjectName githubUsername = Some (repo, cs)
         \<longrightarrow> (\<forall>c \<in> set cs. Since flags < CommitterWhen c))
   \<and> (\<forall>source cs. fst (getSource w flags rawURL name) = Inr (Some (source, cs))
         \<longrightarrow> (\<forall>c \<in> set cs. Since flags < CommitterWhen c))
   \<and> (\<forall>subject h c. fst (getSubject w flags name sourceURLs) = Inr subject
         \<and> Commits subject h = Some c
         \<longrightarrow> Since flags < CommitterWhen c)"
proof -
  have "Since flags < CommitterWhen c"
    if "fst (getSubject w flags name sourceURLs) = Inr subject" "Commits subject h = Some c"
    for subject h c
    using getSources_after [of w flags name sourceURLs
            "\<lparr>Name = name, Sources = [], Commits = Map.empty\<rparr>" "[]" subject] that
    by (simp add: getSubject_def)
  then show ?thesis
    using validateCommit_after [of w flags commit subjectName githubUsername]
      getRepo_after [of w flags repoURL subjectName githubUsername]
      getSource_after [of w flags rawURL name]
    by (intro conjI allI impI) (blast | linarith)+
qed

theorem C4_retained_after_cutoff_witness:
  "CommitterWhen exOld \<le> Since exFlags
   \<and> \<not> validateCommit exWorld exFlags exOld ''Alice'' ''alice''
   \<and> (\<exists>subject. fst (getSubject exWorld exFlags ''Alice'' [''git.example.org/alice/proj'']) = Inr subject
         \<and> Commits subject ''c1'' = Some exNew \<and> Commits subject ''c0'' = None
         \<and> Since exFlags < CommitterWhen exNew)"
proof -
  have a: "CommitterWhen exOld \<le> Since exFlags" by code_simp
  have b: "case fst (getSubject exWorld exFlags ''Alice'' [''git.example.org/alice/proj'']) of
             Inl p \<Rightarrow> False
           | Inr subject \<Rightarrow> Commits subject ''c1'' = Some exNew \<and> Commits subject ''c0'' = None"
    by code_simp
  then obtain subject where
    s: "fst (getSubject exWorld exFlags ''Alice'' [''git.example.org/alice/proj'']) = Inr subject"
       "Commits subject ''c1'' = Some exNew" "Commits subject ''c0'' = None"
    by (auto split: sum.splits)
  from C4_retained_after_cutoff [of exOld exFlags exWorld "''Alice''" "''alice''" _ _ "''Alice''"
         "[''git.example.org/alice/proj'']"] a s
  show ?thesis by blast
qed

subsection \<open>Deduplication\<close>

lemma dom_insertCommits: "dom (insertCommits cs m) = dom m \<union> Hash ` set cs"
  by (induction cs arbitrary: m) auto

lemma getSources_finishes:
  "(\<exists>s. fst (getSources w flags name urls subject events) = Inr s)
     \<longleftrightarrow> (\<forall>u \<in> set urls. \<forall>p. fst (getSource w flags u name) \<noteq> Inl p)"
proof (induction urls arbitrary: subject events)
  case Nil
  show ?case by simp
next
  case (Cons u urls)
  show ?case
  proof (cases "fst (getSource w flags u name)")
    case (Inl p)
    then show ?thesis
      by (auto simp: getSources_Cons simp del: getSources.simps)
  next
    case (Inr r)
    show ?thesis
    proof (cases r)
      case None
      with Inr Cons.IH [of subject "events @ snd (getSource w flags u name)"] show ?thesis
        by (simp add: getSources_Cons del: getSources.simps)
    next
      case (Some sc)
      obtain source cs where sc: "sc = (source, cs)" by (cases sc)
      with Inr Some
        Cons.IH [of "subject\<lparr>Sources := Sources subject @ [source],
                              Commits := insertCommits cs (Commits subject)\<rparr>"
                    "events @ snd (getSource w flags u name)"]
      show ?thesis
        by (simp add: getSources_Cons del: getSources.simps)
    qed
  qed
qed

lemma dom_getSources:
  "fst (getSources w flags name urls subject events) = Inr s \<Longrightarrow>
   dom (Commits s)
     = dom (Commits subject)
       \<union> (\<Union>u \<in> set urls. case fst (getSource w flags u name) of
                               Inr (Some (source, cs)) \<Rightarrow> Hash ` set cs | _ \<Rightarrow> {})"
proof (induction urls arbitrary: subject events)
  case Nil
  then show ?case by simp
next
  case (Cons u urls)
  show ?case
  proof (cases "fst (getSource w flags u name)")
    case (Inl p)
    with Cons.prems show ?thesis
      by (simp add: getSources_Cons del: getSources.simps)
  next
    case (Inr r)
    show ?thesis
    proof (cases r)
      case None
      with Inr Cons.prems Cons.IH [of subject "events @ snd (getSource w flags u name)"]
      show ?thesis
        by (simp add: getSources_Cons del: getSources.simps)
    next
      case (Some sc)
      obtain source cs where sc: "sc = (source, cs)" by (cases sc)
      let ?subject = "subject\<lparr>Sources := Sources subject @ [source],
                              Commits := insertCommits cs (Commits subject)\<rparr>"
      from Inr Some sc Cons.prems
      have "fst (getSources w flags name urls ?subject
                   (events @ snd (getSource w flags u name))) = Inr s"
        by (simp add: getSources_Cons del: getSources.simps)
      from Cons.IH [OF this] Inr Some sc show ?thesis
        by (simp add: dom_insertCommits Un_assoc)
    qed
  qed
qed

lemma dom_getSubject:
  "fst (getSubject w flags name urls) = Inr s \<Longrightarrow>
   dom (Commits s)
     = (\<Union>u \<in> set urls. case fst (getSource w flags u name) of
                             Inr (Some (source, cs)) \<Rightarrow> Hash ` set cs | _ \<Rightarrow> {})"
  using dom_getSources [of w flags name urls "\<lparr>Name = name, Sources = [], Commits = Map.empty\<rparr>" "[]" s]
  by (simp add: getSubject_def)

lemma getSubject_reordered:
  assumes "set urls = set urls'" and "fst (getSubject w flags name urls) = Inr s"
  shows "\<exists>s'. fst (getSubject w flags name urls') = Inr s' \<and> dom (Commits s') = dom (Commits s)"
proof -
  from assms(2) have "\<forall>u \<in> set urls. \<forall>p. fst (getSource w flags u name) \<noteq> Inl p"
    using getSources_finishes [of w flags name urls "\<lparr>Name = name, Sources = [], Commits = Map.empty\<rparr>" "[]"]
    by (auto simp: getSubject_def)
  with assms(1) have "\<forall>u \<in> set urls'. \<forall>p. fst (getSource w flags u name) \<noteq> Inl p"
    by simp
  then obtain s' where s': "fst (getSubject w flags name urls') = Inr s'"
    using getSources_finishes [of w flags name urls' "\<lparr>Name = name, Sources = [], Commits = Map.empty\<rparr>" "[]"]
    by (auto simp: getSubject_def)
  with assms show ?thesis
    by (simp add: dom_getSubject)
qed

text \<open>
  C6: which identifiers end up in the commit map, and how many, does not depend on the
  order of arrival, neither of the commits of one source nor of the sources of a
  subject (when one order gives a subject, so does the other, with the same
  identifiers); the same identifier twice gives a map of size 1, two distinct identifiers
  a map of size 2 in either order.
\<close>

theorem C6_dedup_order_independent:
  "(set cs = set cs' \<longrightarrow> dom (insertCommits cs m) = dom (insertCommits cs' m))
   \<and> (Hash a = Hash b \<longrightarrow> card (dom (insertCommits [a, b] Map.empty)) = 1)
   \<and> (Hash a \<noteq> Hash b \<longrightarrow> card (dom (insertCommits [a, b] Map.empty)) = 2
                          \<and> card (dom (insertCommits [b, a] Map.empty)) = 2)
   \<and> (set urls = set urls' \<longrightarrow>
        (\<forall>s. fst (getSubject w flags name urls) = Inr s \<longrightarrow>
           (\<exists>s'. fst (getSubject w flags name urls') = Inr s'
              \<and> dom (Commits s') = dom (Commits s))))"
  using getSubject_reordered [of urls urls' w flags name]
  by (simp add: dom_insertCommits)

theorem C6_dedup_order_independent_witness:
  "Hash exNew = Hash exNew \<and> card (dom (insertCommits [exNew, exNew] Map.empty)) = 1
   \<and> Hash exNew \<noteq> Hash exNoReply
   \<and> card (dom (insertCommits [exNew, exNoReply] Map.empty)) = 2
   \<and> card (dom (insertCommits [exNoReply, exNew] Map.empty)) = 2
   \<and> (\<exists>s s'. fst (getSubject exWorld exFlags ''Alice''
                      [''git.example.org/alice/proj'', ''git.example.org/alice/mirror'']) = Inr s
         \<and> fst (getSubject exWorld exFlags ''Alice''
                      [''git.example.org/alice/mirror'', ''git.example.org/alice/proj'']) = Inr s'
         \<and> dom (Commits s') = dom (Commits s))"
proof -
  have d: "Hash exNew \<noteq> Hash exNoReply" by code_simp
  have s: "set [''git.example.org/alice/proj'', ''git.example.org/alice/mirror'']
             = set [''git.example.org/alice/mirror'', ''git.example.org/alice/proj'']"
    by auto
  have "case fst (getSubject exWorld exFlags ''Alice''
                    [''git.example.org/alice/proj'', ''git.example.org/alice/mirror'']) of
          Inl p \<Rightarrow> False | Inr s \<Rightarrow> True"
    by code_simp
  then obtain s0 where r: "fst (getSubject exWorld exFlags ''Alice''
                    [''git.example.org/alice/proj'', ''git.example.org/alice/mirror'']) = Inr s0"
    by (auto split: sum.splits)
  from C6_dedup_order_independent [of "[exNew]" "[exNew]" Map.empty exNew exNew _ _ exWorld exFlags "''Alice''"]
  have one: "card (dom (insertCommits [exNew, exNew] Map.empty)) = 1" by blast
  from C6_dedup_order_independent [of "[exNew]" "[exNew]" Map.empty exNew exNoReply
         "[''git.example.org/alice/proj'', ''git.example.org/alice/mirror'']"
         "[''git.example.org/alice/mirror'', ''git.example.org/alice/proj'']" exWorld exFlags "''Alice''"] d s r
  show ?thesis using one by blast
qed

subsection \<open>Sources that name a repository\<close>

lemma getSource_repo_direct:
  assumes "urlParse w (if \<not> hasPrefix rawURL ''http://'' \<and> \<not> hasPrefix rawURL ''https://''
                       then ''https://'' @ rawURL else rawURL) = Some (h, p)"
    and "trim p (CHR ''/'') \<noteq> []"
    and "length (splitOn (CHR ''/'') (trim p (CHR ''/''))) > 1"
    and "splitOn (CHR ''/'') (trim p (CHR ''/'')) ! 1 \<noteq> []"
  shows "snd (getSource w flags rawURL subjectName)
           = [GitClone (''https://'' @ h @ ''/'' @ hd (splitOn (CHR ''/'') (trim p (CHR ''/'')))
                          @ ''/'' @ splitOn (CHR ''/'') (trim p (CHR ''/'')) ! 1 @ ''.git'')]"
  using assms by (simp add: getSource_def Let_def del: getRepos.simps)

text \<open>
  C7: a source URL naming a repository should give one clone location and cause no
  probing and no listing call. \<open>getSource\<close> does so (\<open>getSource_repo_direct\<close>: the only
  network event is the clone of \<open>https://{host}/{account}/{repository}.git\<close>). The earlier
  \<open>parseSource\<close> calls \<open>detectAPI\<close> before it looks at the repository name: for
  \<open>git.example.org/alice/proj\<close> it sends the three probes, and as none answers it gives up
  with no clone location at all, where \<open>getSource\<close> clones the repository.
\<close>

theorem C7_parseSource_probes_first:
  "parseSource exWorld ''git.example.org/alice/proj''
     = (Inr (Inl UnknownAPI), [Probe ''https://git.example.org/api/v3'',
                               Probe ''https://git.example.org/api/v4/version'',
                               Probe ''https://git.example.org/api/v1/version''])
   \<and> snd (getSource exWorld exFlags ''git.example.org/alice/proj'' ''Alice'')
       = [GitClone ''https://git.example.org/alice/proj.git'']"
  by code_simp

subsection \<open>A panicking fetcher\<close>

text \<open>
  A GitLab listing whose \<open>http_url_to_repo\<close> is not a string makes the type assertion
  panic: the run ends there, after the listing request, and the second source is never
  reached.
\<close>

lemma fetcher_panic_ends_run:
  "(case getSubject
          (exWorld\<lparr>urlParse := (\<lambda>u. if u = ''https://gitlab.com/alice''
                                     then Some (''gitlab.com'', ''/alice'')
                                     else urlParse exWorld u),
                    unmarshalGitLab := (\<lambda>b. Some [[''http_url_to_repo'' \<mapsto> AnyOther]])\<rparr>)
          exFlags ''Alice'' [''gitlab.com/alice'', ''git.example.org/alice/proj''] of
      (Inl p, events) \<Rightarrow>
        p = TypeAssertion
        \<and> events = [ApiRequest ''https://gitlab.com/api/v4/users/alice/projects?order_by=last_activity_at&sort=desc&per_page=100&per_page=100'']
    | (Inr subject, events) \<Rightarrow> False)"
  by code_simp

subsection \<open>Listing size\<close>











subsection \<open>The user flag\<close>

lemma splitOn_not_Nil: "splitOn sep s \<noteq> []"
  by (induction s) (auto split: list.splits)

lemma length_splitOn: "length (splitOn sep s) = Suc (count_list s sep)"
  by (induction s) (auto split: list.splits simp: splitOn_not_Nil)

text \<open>
  C10: a \<open>-u\<close> value that does not contain exactly one \<open>@\<close> ends the program through
  \<open>log.Fatalf\<close>; in particular a value \<open>name@urls\<close> whose source URLs contain an \<open>@\<close>
  themselves does. With exactly one \<open>@\<close> the subject is built.
\<close>

theorem C10_flag_needs_one_at:
  "(count_list userFlag (CHR ''@'') \<noteq> 1 \<longrightarrow>
      buildSubjectFromFlag w flags userFlag = Inl (Fatal ''Invalid format, expected: name@url1,url2''))
   \<and> (CHR ''@'' \<in> set sourceURLs \<longrightarrow>
      buildSubjectFromFlag w flags (name @ ''@'' @ sourceURLs)
        = Inl (Fatal ''Invalid format, expected: name@url1,url2''))
   \<and> (count_list userFlag (CHR ''@'') = 1 \<longrightarrow>
      buildSubjectFromFlag w flags userFlag
        = Inr (getSubject w flags (splitOn (CHR ''@'') userFlag ! 0)
                 (splitOn (CHR '','') (splitOn (CHR ''@'') userFlag ! 1))))"
proof -
  have "count_list (name @ ''@'' @ sourceURLs) (CHR ''@'') \<noteq> 1" if "CHR ''@'' \<in> set sourceURLs"
  proof -
    from that have "count_list sourceURLs (CHR ''@'') > 0"
      using count_list_0_iff [of sourceURLs "CHR ''@''"] by auto
    then show ?thesis by simp
  qed
  then show ?thesis
    by (simp add: buildSubjectFromFlag_def Let_def length_splitOn)
qed

theorem C10_flag_needs_one_at_witness:
  "count_list ''bob@https://user@host/x'' (CHR ''@'') \<noteq> 1
   \<and> CHR ''@'' \<in> set ''https://user@host/x''
   \<and> buildSubjectFromFlag exWorld exFlags ''bob@https://user@host/x''
       = Inl (Fatal ''Invalid format, expected: name@url1,url2'')
   \<and> buildSubjectFromFlag exWorld exFlags ''bob''
       = Inl (Fatal ''Invalid format, expected: name@url1,url2'')"
proof -
  have a: "count_list ''bob@https://user@host/x'' (CHR ''@'') \<noteq> 1" by simp
  have b: "count_list ''bob'' (CHR ''@'') \<noteq> 1" by simp
  have c: "CHR ''@'' \<in> set ''https://user@host/x''" by simp
  from C10_flag_needs_one_at [of "''bob@https://user@host/x''" exWorld exFlags] a
  have 1: "buildSubjectFromFlag exWorld exFlags ''bob@https://user@host/x''
       = Inl (Fatal ''Invalid format, expected: name@url1,url2'')" by blast
  from C10_flag_needs_one_at [of "''bob''" exWorld exFlags] b
  have 2: "buildSubjectFromFlag exWorld exFlags ''bob''
       = Inl (Fatal ''Invalid format, expected: name@url1,url2'')" by blast
  from a c 1 2 show ?thesis by blast
qed


subsection \<open>The text histogram\<close>

lemma histoLoop_result:
  assumes "\<forall>c \<in> set cs. AuthorHour c < length hourCounts"
  shows "histoLoop cs hourCounts maxi
           = Inr (map (\<lambda>h. hourCounts ! h + length (filter (\<lambda>c. AuthorHour c = h) cs))
                      [0..<length hourCounts],
                  Max (insert maxi (AuthorHour ` set cs)))"
  using assms
proof (induction cs arbitrary: hourCounts maxi)
  case Nil
  show ?case by (simp add: map_nth)
next
  case (Cons c cs)
  let ?hc = "hourCounts[AuthorHour c := Suc (hourCounts ! AuthorHour c)]"
  let ?m = "if AuthorHour c > maxi then AuthorHour c else maxi"
  from Cons.prems have lt: "AuthorHour c < length hourCounts"
    and rest: "\<forall>c \<in> set cs. AuthorHour c < length ?hc"
    by simp_all
  have counts: "map (\<lambda>h. ?hc ! h + length (filter (\<lambda>c. AuthorHour c = h) cs)) [0..<length ?hc]
          = map (\<lambda>h. hourCounts ! h + length (filter (\<lambda>c. AuthorHour c = h) (c # cs)))
                [0..<length hourCounts]"
    by (auto simp: nth_list_update)
  have "Max (insert ?m (AuthorHour ` set cs)) = Max (insert maxi (AuthorHour ` set (c # cs)))"
  proof (cases "AuthorHour c > maxi")
    case True
    have "Max (insert maxi (insert (AuthorHour c) (AuthorHour ` set cs)))
            = max maxi (Max (insert (AuthorHour c) (AuthorHour ` set cs)))"
      by (rule Max_insert) simp_all
    also have "\<dots> = Max (insert (AuthorHour c) (AuthorHour ` set cs))"
      using True by (simp add: max_def Max_ge_iff less_imp_le)
    finally show ?thesis using True by simp
  next
    case False
    have "Max (insert (AuthorHour c) (insert maxi (AuthorHour ` set cs)))
            = max (AuthorHour c) (Max (insert maxi (AuthorHour ` set cs)))"
      by (rule Max_insert) simp_all
    also have "\<dots> = Max (insert maxi (AuthorHour ` set cs))"
      using False by (simp add: max_def Max_ge_iff)
    finally show ?thesis using False by (simp add: insert_commute)
  qed
  with Cons.IH [OF rest, of ?m] counts lt show ?case
    by (simp add: Let_def)
qed

lemma zip_upt_nth: "zip [0..<length xs] xs = map (\<lambda>i. (i, xs ! i)) [0..<length xs]"
  by (rule nth_equalityI) simp_all

text \<open>
  C9: for every commit set (author hours are hours of the day, below 24) the value
  tracked in \<open>maxi\<close> is the largest author hour seen, at most 23 and so never above 80:
  the rescaling branch is not taken, each of the 24 lines carries one \<open>#\<close> per commit of
  its hour, and the zero-pad width is the number of digits of the largest hour.
\<close>

theorem C9_no_rescaling:
  assumes "\<forall>c \<in> set commits. AuthorHour c < 24"
  shows "\<exists>hourCounts maxi.
           histoLoop commits (replicate 24 0) 0 = Inr (hourCounts, maxi)
           \<and> maxi = Max (insert 0 (AuthorHour ` set commits))
           \<and> maxi \<le> 23 \<and> \<not> maxi > 80
           \<and> hourCounts = map (\<lambda>h. length (filter (\<lambda>c. AuthorHour c = h) commits)) [0..<24]
           \<and> printSleepHisto flags commits
               = Inr \<lparr>printed = map (\<lambda>h. histoLine h (length (sprintd maxi)) (hourCounts ! h)
                                            (replicate (hourCounts ! h) (CHR ''#''))) [0..<24],
                      saved = (if Write flags then Some hourCounts else None)\<rparr>"
proof -
  let ?hc = "map (\<lambda>h. length (filter (\<lambda>c. AuthorHour c = h) commits)) [0..<24]"
  let ?m = "Max (insert 0 (AuthorHour ` set commits))"
  have loop: "histoLoop commits (replicate 24 0) 0 = Inr (?hc, ?m)"
    using histoLoop_result [of commits "replicate 24 0" 0] assms by simp
  have "\<forall>x \<in> insert 0 (AuthorHour ` set commits). x \<le> 23"
    using assms by auto
  then have le: "?m \<le> 23"
    by (simp only: Max_le_iff [of "insert 0 (AuthorHour ` set commits)" 23, OF finite.insertI [OF finite_imageI [OF finite_set]] insert_not_empty])
  from le have gt: "\<not> 80 < ?m" by linarith
  then have no: "(80 < ?m) = False" by (rule eq_False [THEN iffD2])
  have len: "length ?hc = 24" by simp
  have rows: "zip [0..<length ?hc] ?hc = map (\<lambda>i. (i, ?hc ! i)) [0..<24]"
    using zip_upt_nth [of ?hc] by (simp only: len)
  have pr: "printSleepHisto flags commits
          = Inr \<lparr>printed = map (\<lambda>h. histoLine h (length (sprintd ?m)) (?hc ! h)
                                       (replicate (?hc ! h) (CHR ''#''))) [0..<24],
                 saved = (if Write flags then Some ?hc else None)\<rparr>"
    unfolding printSleepHisto_def loop
    by (simp only: sum.case prod.case Let_def rows no if_False) (simp add: comp_def)
  show ?thesis
    by (intro exI conjI) (rule loop refl le gt pr)+
qed

text \<open>81 commits in hour 3: the pad width is 1 and the bar has 81 marks, past column 80.\<close>

theorem C9_no_rescaling_witness:
  "AuthorHour exNoReply < 24
   \<and> (\<exists>out. printSleepHisto exFlags (replicate 81 exNoReply) = Inr out
         \<and> printed out ! 3 = ''03:00 (81): '' @ replicate 81 (CHR ''#'') @ [CHR 0x0A]
         \<and> length (printed out) = 24)"
proof -
  have h: "\<forall>c \<in> set (replicate 81 exNoReply). AuthorHour c < 24"
    by (simp add: exNoReply_def)
  have m: "Max (insert 0 (AuthorHour ` set (replicate 81 exNoReply))) = 3"
    by (simp add: exNoReply_def)
  have w: "length (sprintd 3) = 1" by code_simp
  have l: "histoLine 3 1 81 (replicate 81 (CHR ''#'')) = ''03:00 (81): '' @ replicate 81 (CHR ''#'') @ [CHR 0x0A]"
    by code_simp
  from C9_no_rescaling [OF h, of exFlags] obtain hourCounts maxi where
    r: "maxi = Max (insert 0 (AuthorHour ` set (replicate 81 exNoReply)))"
       "hourCounts = map (\<lambda>h. length (filter (\<lambda>c. AuthorHour c = h) (replicate 81 exNoReply))) [0..<24]"
       "printSleepHisto exFlags (replicate 81 exNoReply)
               = Inr \<lparr>printed = map (\<lambda>h. histoLine h (length (sprintd maxi)) (hourCounts ! h)
                                            (replicate (hourCounts ! h) (CHR ''#''))) [0..<24],
                      saved = (if Write exFlags then Some hourCounts else None)\<rparr>"
    by blast
  have c: "hourCounts ! 3 = 81"
    using r(2) by (simp add: exNoReply_def)
  have "printed \<lparr>printed = map (\<lambda>h. histoLine h (length (sprintd maxi)) (hourCounts ! h)
                                            (replicate (hourCounts ! h) (CHR ''#''))) [0..<24],
                      saved = (if Write exFlags then Some hourCounts else None)\<rparr> ! 3
          = ''03:00 (81): '' @ replicate 81 (CHR ''#'') @ [CHR 0x0A]"
    using r(1) m w l c by simp
  with r(3) show ?thesis
    by (simp add: exNoReply_def)
qed

end
